theory Spec2Isabelle
  imports Main
begin

section \<open>The book router\<close>

text \<open>
  The router file declares seven routes on an Express router. Each declaration gives a
  verb, a path pattern and the handlers of the route, in the order Express will call
  them. The handlers imported by the file are named here; only their names and their
  positions are in the router file.
\<close>

datatype verb = GET | POST | PUT | DELETE

datatype controller =
    addBook
  | deleteBookById
  | getAllBooksBorrowedByUser
  | getBook
  | getBooks
  | getFrequentlyBorrowedBooks
  | updateBookDetails

datatype handler =
    addBookValidation
  | updateBookValidation
  | isAuthenticated
  | handleValidationErrors
  | Controller controller

record route =
  verb :: verb
  path :: string
  chain :: "handler list"

definition bookRouter :: "route list" where
  "bookRouter =
    [ \<lparr>verb = POST, path = ''/book/add'',
        chain = [addBookValidation, isAuthenticated, handleValidationErrors, Controller addBook]\<rparr>,
      \<lparr>verb = PUT, path = ''/book/update/:id'',
        chain = [updateBookValidation, isAuthenticated, handleValidationErrors,
                 Controller updateBookDetails]\<rparr>,
      \<lparr>verb = DELETE, path = ''/book/delete/:id'',
        chain = [isAuthenticated, Controller deleteBookById]\<rparr>,
      \<lparr>verb = GET, path = ''/book/:id'',
        chain = [Controller getBook]\<rparr>,
      \<lparr>verb = GET, path = ''/book/borrowed/:id'',
        chain = [isAuthenticated, Controller getAllBooksBorrowedByUser]\<rparr>,
      \<lparr>verb = GET, path = ''/books'',
        chain = [Controller getBooks]\<rparr>,
      \<lparr>verb = GET, path = ''/books/frequently-borrowed'',
        chain = [Controller getFrequentlyBorrowedBooks]\<rparr> ]"

text \<open>The controllers named in a chain, and the handlers that are not controllers.\<close>

fun controllers_of :: "handler list \<Rightarrow> controller list" where
  "controllers_of [] = []"
| "controllers_of (Controller c # hs) = c # controllers_of hs"
| "controllers_of (h # hs) = controllers_of hs"

fun is_controller :: "handler \<Rightarrow> bool" where
  "is_controller (Controller c) = True"
| "is_controller h = False"

definition binding :: "route \<Rightarrow> verb \<times> string \<times> controller list" where
  "binding r = (verb r, path r, controllers_of (chain r))"

definition chain_of :: "route list \<Rightarrow> verb \<Rightarrow> string \<Rightarrow> handler list option" where
  "chain_of rs v p = map_option chain (find (\<lambda>r. verb r = v \<and> path r = p) rs)"

subsection \<open>How Express runs a chain\<close>

text \<open>
  A handler either passes the (possibly changed) request on by calling next, or ends
  the request by sending a response. Express calls the handlers of a route in their
  declared order and stops at the first one that responds. The behaviour of each named
  handler is a parameter \<open>env\<close>: the router file fixes the order, not the bodies.
  The run returns the handlers that were invoked, in order, and the response with the
  handler that sent it (or nothing when every handler called next).
\<close>

datatype ('q, 'p) outcome = Next 'q | Respond 'p

fun run_chain ::
  "(handler \<Rightarrow> 'q \<Rightarrow> ('q, 'p) outcome) \<Rightarrow> handler list \<Rightarrow> 'q \<Rightarrow> handler list \<times> (handler \<times> 'p) option"
where
  "run_chain env [] req = ([], None)"
| "run_chain env (h # hs) req =
     (case env h req of
        Respond resp \<Rightarrow> ([h], Some (h, resp))
      | Next req' \<Rightarrow> (case run_chain env hs req' of (t, out) \<Rightarrow> (h # t, out)))"

section \<open>Registration validation\<close>

text \<open>
  \<open>registrationValidation\<close> is a list of express-validator chains, one per field of the
  request body. A chain names its field and lists validators; \<open>withMessage\<close> attaches a
  message to the validator just before it. The regular expressions of the source are
  single character classes, so a class is a list of ranges and single characters.
\<close>

datatype class_item = Range char char | Single char

datatype validator = isEmail | isLength nat | matches "class_item list" | notEmpty

type_synonym validation_chain = "string \<times> (validator \<times> string) list"

definition registrationValidation :: "validation_chain list" where
  "registrationValidation =
    [ (''email'', [(isEmail, ''Invalid email format'')]),
      (''password'',
        [ (isLength 8, ''Password should be at least 8 characters long''),
          (matches [Range (CHR ''a'') (CHR ''z'')],
             ''Password should contain at least one lowercase letter''),
          (matches [Range (CHR ''A'') (CHR ''Z'')],
             ''Password should contain at least one uppercase letter''),
          (matches [Range (CHR ''0'') (CHR ''9'')],
             ''Password should contain at least one digit''),
          (matches [Single (CHR ''!''), Single (CHR ''@''), Single (CHR ''#''), Single (CHR ''$''),
                    Single (CHR ''%''), Single (CHR ''^''), Single (CHR ''&''), Single (CHR ''*''),
                    Single (CHR ''(''), Single (CHR '')''), Single (CHR '',''), Single (CHR ''.''),
                    Single (CHR ''?''), Single (CHR 0x22), Single (CHR '':''), Single (CHR ''{''),
                    Single (CHR ''}''), Single (CHR ''|''), Single (CHR ''<''), Single (CHR ''>'')],
             ''Password should contain at least one special character'') ]),
      (''fullName'', [(notEmpty, ''Full name is required'')]),
      (''username'', [(notEmpty, ''Company name is required'')]) ]"

subsection \<open>What the validators compute\<close>

text \<open>
  A range of a character class holds the characters whose code lies between its two
  ends. \<open>matches\<close> searches the string for a character of the class (the regular
  expressions are not anchored), \<open>isLength\<close> with a minimum compares the length, and
  \<open>notEmpty\<close> refuses the empty string only. \<open>isEmail\<close> is the library's email test;
  it is a parameter \<open>em\<close> here.
\<close>

fun in_item :: "class_item \<Rightarrow> char \<Rightarrow> bool" where
  "in_item (Range lo hi) c = ((of_char lo :: nat) \<le> of_char c \<and> (of_char c :: nat) \<le> of_char hi)"
| "in_item (Single x) c = (c = x)"

fun passes :: "(string \<Rightarrow> bool) \<Rightarrow> validator \<Rightarrow> string \<Rightarrow> bool" where
  "passes em isEmail s = em s"
| "passes em (isLength n) s = (n \<le> length s)"
| "passes em (matches cls) s = list_ex (\<lambda>c. list_ex (\<lambda>i. in_item i c) cls) s"
| "passes em notEmpty s = (s \<noteq> [])"

text \<open>
  A request body gives each field its value as a string, or nothing when the field is
  missing or null; express-validator validates the empty string in that case. Bodies
  whose fields hold something else (an array, an object) are not modelled: how such a
  value is validated is decided by the version of the library, which no source file
  fixes. A chain has no \<open>bail\<close>, so every validator runs and every failure records
  the field and the message, in order.
\<close>

type_synonym body = "string \<Rightarrow> string option"

definition field_value :: "body \<Rightarrow> string \<Rightarrow> string" where
  "field_value b f = (case b f of None \<Rightarrow> [] | Some s \<Rightarrow> s)"

definition run_field :: "(string \<Rightarrow> bool) \<Rightarrow> body \<Rightarrow> validation_chain \<Rightarrow> (string \<times> string) list" where
  "run_field em b ch =
     map (\<lambda>vm. (fst ch, snd vm)) (filter (\<lambda>vm. \<not> passes em (fst vm) (field_value b (fst ch))) (snd ch))"

definition run_validation ::
  "(string \<Rightarrow> bool) \<Rightarrow> validation_chain list \<Rightarrow> body \<Rightarrow> (string \<times> string) list" where
  "run_validation em chs b = concat (map (run_field em b) chs)"




text \<open>
  The password composition rule in the spec's words: minimum length 8, and a lowercase
  letter, an uppercase letter, a digit and a special character. The special characters
  are the twenty of the source's last character class.
\<close>

definition has_lowercase :: "string \<Rightarrow> bool" where
  "has_lowercase s = (\<exists>c \<in> set s. c \<in> set ''abcdefghijklmnopqrstuvwxyz'')"

definition has_uppercase :: "string \<Rightarrow> bool" where
  "has_uppercase s = (\<exists>c \<in> set s. c \<in> set ''ABCDEFGHIJKLMNOPQRSTUVWXYZ'')"

definition has_digit :: "string \<Rightarrow> bool" where
  "has_digit s = (\<exists>c \<in> set s. c \<in> set ''0123456789'')"

definition has_special :: "string \<Rightarrow> bool" where
  "has_special s = (\<exists>c \<in> set s. c \<in> set (''!@#$%^&*(),.?'' @ CHR 0x22 # '':{}|<>''))"


section \<open>The persisted schema\<close>

text \<open>
  The Prisma schema declares one enum and three models. A field has a name, a type, a
  modifier (\<open>T\<close> required, \<open>T?\<close> optional, \<open>T[]\<close> a list) and attributes; a model
  also lists its \<open>@@index\<close> declarations.
\<close>

datatype ftype = TInt | TString | TBoolean | TDateTime | TEnum string | TModel string

datatype modifier = Required | Optional | ListOf

datatype dflt = autoincrement | now | DBool bool | DInt int | DEnum string

datatype attr =
    AtId
  | AtUnique
  | AtDefault dflt
  | AtUpdatedAt
  | AtRelation "string list" "string list"

datatype field = Field (fname: string) (ftype: ftype) (modifier: modifier) (attrs: "attr list")

datatype index = Index (icolumns: "string list") (iname: string)

datatype model = Model (mname: string) (mfields: "field list") (mindexes: "index list")

record schema =
  enums :: "(string \<times> string list) list"
  models :: "model list"

definition UserRole :: "string \<times> string list" where
  "UserRole = (''UserRole'', [''ADMIN'', ''USER''])"

definition Book :: model where
  "Book = Model ''Book''
    [ Field ''id'' TInt Required [AtId, AtDefault autoincrement],
      Field ''title'' TString Required [],
      Field ''author'' TString Required [],
      Field ''genre'' TString Required [],
      Field ''publishedYear'' TInt Required [],
      Field ''isbn'' TString Optional [AtUnique],
      Field ''isAvailable'' TBoolean Required [AtDefault (DBool True)],
      Field ''borrowedCount'' TInt Required [AtDefault (DInt 0)],
      Field ''createdAt'' TDateTime Required [AtDefault now],
      Field ''updatedAt'' TDateTime Required [AtUpdatedAt],
      Field ''Transactions'' (TModel ''Transactions'') ListOf [] ]
    [ Index [''title'', ''author''] ''idx_book_search'' ]"

definition User :: model where
  "User = Model ''User''
    [ Field ''id'' TInt Required [AtId, AtDefault autoincrement],
      Field ''fullName'' TString Required [],
      Field ''email'' TString Required [AtUnique],
      Field ''password'' TString Required [],
      Field ''username'' TString Optional [AtUnique],
      Field ''phoneNumber'' TString Optional [],
      Field ''accessToken'' TString Optional [],
      Field ''refreshToken'' TString Optional [],
      Field ''role'' (TEnum ''UserRole'') Required [AtDefault (DEnum ''USER'')],
      Field ''createdAt'' TDateTime Required [AtDefault now],
      Field ''updatedAt'' TDateTime Required [AtUpdatedAt],
      Field ''Transactions'' (TModel ''Transactions'') ListOf [] ]
    []"

definition Transactions :: model where
  "Transactions = Model ''Transactions''
    [ Field ''id'' TInt Required [AtId, AtDefault autoincrement],
      Field ''userId'' TInt Required [],
      Field ''bookId'' TInt Required [],
      Field ''borrowedAt'' TDateTime Required [AtDefault now],
      Field ''returnedAt'' TDateTime Optional [],
      Field ''User'' (TModel ''User'') Required [AtRelation [''userId''] [''id'']],
      Field ''Book'' (TModel ''Book'') Required [AtRelation [''bookId''] [''id'']] ]
    [ Index [''userId''] ''idx_transactions_user'',
      Index [''bookId''] ''idx_transactions_book'',
      Index [''borrowedAt''] ''idx_transactions_borrowed_at'' ]"

definition prisma_schema :: schema where
  "prisma_schema = \<lparr>enums = [UserRole], models = [Book, User, Transactions]\<rparr>"

subsection \<open>Reading the declarations\<close>

definition field_of :: "model \<Rightarrow> string \<Rightarrow> field option" where
  "field_of m n = find (\<lambda>f. fname f = n) (mfields m)"

definition is_key :: "field \<Rightarrow> bool" where
  "is_key f = (AtId \<in> set (attrs f) \<or> AtUnique \<in> set (attrs f))"

definition key_columns :: "model \<Rightarrow> string list" where
  "key_columns m = map fname (filter is_key (mfields m))"

fun relation_of :: "field \<Rightarrow> (string list \<times> string \<times> string list) list" where
  "relation_of (Field n (TModel target) md as) =
     concat (map (\<lambda>a. case a of AtRelation fs refs \<Rightarrow> [(fs, target, refs)] | _ \<Rightarrow> []) as)"
| "relation_of (Field n ty md as) = []"

definition foreign_keys :: "model \<Rightarrow> (string list \<times> string \<times> string list) list" where
  "foreign_keys m = concat (map relation_of (mfields m))"

definition all_indexes :: "schema \<Rightarrow> (string \<times> string list \<times> string) list" where
  "all_indexes S = concat (map (\<lambda>m. map (\<lambda>i. (mname m, icolumns i, iname i)) (mindexes m)) (models S))"

subsection \<open>What the declarations mean for the stored rows\<close>

text \<open>
  A row gives values to column names; a column with no entry is null. A field whose
  type is a model is a relation, not a column. The database accepts a table when every
  required column has a value of its type, when the non-null values of each \<open>@id\<close>
  or \<open>@unique\<close> column are pairwise different (PostgreSQL never equates nulls), and
  when every foreign key names a row of the referenced table.
\<close>

datatype val = VInt int | VStr string | VBool bool | VTime nat | VEnum string

type_synonym row = "(string \<times> val) list"

type_synonym tables = "string \<Rightarrow> row list"

fun has_type :: "(string \<times> string list) list \<Rightarrow> ftype \<Rightarrow> val \<Rightarrow> bool" where
  "has_type es TInt (VInt i) = True"
| "has_type es TString (VStr s) = True"
| "has_type es TBoolean (VBool b) = True"
| "has_type es TDateTime (VTime t) = True"
| "has_type es (TEnum e) (VEnum v) = (case map_of es e of None \<Rightarrow> False | Some vs \<Rightarrow> v \<in> set vs)"
| "has_type es ty v = False"

fun is_column :: "field \<Rightarrow> bool" where
  "is_column (Field n (TModel target) md as) = False"
| "is_column (Field n ty md as) = True"

definition column_ok :: "(string \<times> string list) list \<Rightarrow> field \<Rightarrow> row \<Rightarrow> bool" where
  "column_ok es f r =
     (if is_column f
      then (case map_of r (fname f) of
              None \<Rightarrow> modifier f = Optional
            | Some v \<Rightarrow> has_type es (ftype f) v)
      else map_of r (fname f) = None)"

definition unique_ok :: "field \<Rightarrow> row list \<Rightarrow> bool" where
  "unique_ok f rows =
     (if is_key f then distinct (List.map_filter (\<lambda>r. map_of r (fname f)) rows) else True)"

definition relation_ok :: "tables \<Rightarrow> field \<Rightarrow> row \<Rightarrow> bool" where
  "relation_ok tbl f r =
     list_all (\<lambda>(fs, target, refs).
        None \<in> set (map (map_of r) fs)
        \<or> list_ex (\<lambda>r'. map (map_of r') refs = map (map_of r) fs) (tbl target))
       (relation_of f)"

definition model_ok :: "schema \<Rightarrow> tables \<Rightarrow> model \<Rightarrow> bool" where
  "model_ok S tbl m =
     list_all (\<lambda>f. unique_ok f (tbl (mname m))
                 \<and> list_all (\<lambda>r. column_ok (enums S) f r \<and> relation_ok tbl f r) (tbl (mname m)))
       (mfields m)"

definition db_ok :: "schema \<Rightarrow> tables \<Rightarrow> bool" where
  "db_ok S tbl = list_all (model_ok S tbl) (models S)"

subsection \<open>Creating a row\<close>

text \<open>
  On insertion a column the input leaves out takes its declared default:
  \<open>autoincrement()\<close> the next value of the model's sequence, \<open>now()\<close> and
  \<open>@updatedAt\<close> the time of the insertion, a literal itself. The insertion is refused
  when the new row breaks a constraint.
\<close>

record db =
  tables :: tables
  seqs :: "string \<Rightarrow> int"

datatype db_error = ConstraintFailed string

fun default_value :: "int \<Rightarrow> nat \<Rightarrow> attr list \<Rightarrow> val option" where
  "default_value nv t [] = None"
| "default_value nv t (AtDefault autoincrement # as) = Some (VInt nv)"
| "default_value nv t (AtDefault now # as) = Some (VTime t)"
| "default_value nv t (AtDefault (DBool b) # as) = Some (VBool b)"
| "default_value nv t (AtDefault (DInt i) # as) = Some (VInt i)"
| "default_value nv t (AtDefault (DEnum e) # as) = Some (VEnum e)"
| "default_value nv t (AtUpdatedAt # as) = Some (VTime t)"
| "default_value nv t (a # as) = default_value nv t as"

definition new_value :: "int \<Rightarrow> nat \<Rightarrow> row \<Rightarrow> field \<Rightarrow> (string \<times> val) option" where
  "new_value nv t input f =
     (if is_column f
      then map_option (Pair (fname f))
             (case map_of input (fname f) of
                Some v \<Rightarrow> Some v
              | None \<Rightarrow> default_value nv t (attrs f))
      else None)"

definition new_row :: "model \<Rightarrow> int \<Rightarrow> nat \<Rightarrow> row \<Rightarrow> row" where
  "new_row m nv t input = List.map_filter (new_value nv t input) (mfields m)"

definition create :: "schema \<Rightarrow> db \<Rightarrow> model \<Rightarrow> nat \<Rightarrow> row \<Rightarrow> db_error + (row \<times> db)" where
  "create S d m t input =
     (let nv = seqs d (mname m) + 1;
          r = new_row m nv t input;
          tbl' = (tables d)(mname m := tables d (mname m) @ [r])
      in if \<not> list_all (\<lambda>f. column_ok (enums S) f r) (mfields m)
           then Inl (ConstraintFailed ''column'')
         else if \<not> list_all (\<lambda>f. unique_ok f (tbl' (mname m))) (mfields m)
           then Inl (ConstraintFailed ''unique'')
         else if \<not> list_all (\<lambda>f. relation_ok tbl' f r) (mfields m)
           then Inl (ConstraintFailed ''foreign key'')
         else Inr (r, \<lparr>tables = tbl', seqs = (seqs d)(mname m := nv)\<rparr>))"

text \<open>
  An open transaction is a Transactions row with null \<open>returnedAt\<close>. The availability
  invariant of a Book row: it is flagged available exactly when no open transaction
  names it.
\<close>

definition open_transactions :: "tables \<Rightarrow> val \<Rightarrow> row list" where
  "open_transactions tbl bid =
     filter (\<lambda>tx. map_of tx ''bookId'' = Some bid \<and> map_of tx ''returnedAt'' = None)
       (tbl ''Transactions'')"

definition availability_invariant :: "tables \<Rightarrow> row \<Rightarrow> bool" where
  "availability_invariant tbl book =
     (case map_of book ''id'' of
        None \<Rightarrow> False
      | Some bid \<Rightarrow>
          (map_of book ''isAvailable'' = Some (VBool True)) = (open_transactions tbl bid = []))"

subsection \<open>Example states\<close>

text \<open>
  Two concrete database states, used to show what the schema admits.
  \<open>library_state\<close> has four books (two with an ISBN, two without), two users (one
  without a username) and one open transaction. \<open>double_borrow\<close> differs from it by a
  second open transaction on the same book.
\<close>

definition library_state :: tables where
  "library_state = (\<lambda>m. [])
    (''Book'' :=
       [ [(''id'', VInt 1), (''title'', VStr ''The Great Gatsby''), (''author'', VStr ''F. Scott Fitzgerald''),
          (''genre'', VStr ''Classic''), (''publishedYear'', VInt 1925), (''isbn'', VStr ''9780743273565''),
          (''isAvailable'', VBool False), (''borrowedCount'', VInt 1), (''createdAt'', VTime 1),
          (''updatedAt'', VTime 5)],
         [(''id'', VInt 2), (''title'', VStr ''Emma''), (''author'', VStr ''Jane Austen''),
          (''genre'', VStr ''Classic''), (''publishedYear'', VInt 1815), (''isbn'', VStr ''9780141439587''),
          (''isAvailable'', VBool True), (''borrowedCount'', VInt 0), (''createdAt'', VTime 2),
          (''updatedAt'', VTime 2)],
         [(''id'', VInt 3), (''title'', VStr ''Notes''), (''author'', VStr ''Anon''),
          (''genre'', VStr ''Essay''), (''publishedYear'', VInt 2001),
          (''isAvailable'', VBool True), (''borrowedCount'', VInt 0), (''createdAt'', VTime 3),
          (''updatedAt'', VTime 3)],
         [(''id'', VInt 4), (''title'', VStr ''Letters''), (''author'', VStr ''Anon''),
          (''genre'', VStr ''Essay''), (''publishedYear'', VInt 2002),
          (''isAvailable'', VBool True), (''borrowedCount'', VInt 0), (''createdAt'', VTime 4),
          (''updatedAt'', VTime 4)] ],
     ''User'' :=
       [ [(''id'', VInt 1), (''fullName'', VStr ''Ann Lee''), (''email'', VStr ''ann@example.com''),
          (''password'', VStr ''hash1''), (''username'', VStr ''ann''), (''role'', VEnum ''ADMIN''),
          (''createdAt'', VTime 1), (''updatedAt'', VTime 1)],
         [(''id'', VInt 2), (''fullName'', VStr ''Bob Ray''), (''email'', VStr ''bob@example.com''),
          (''password'', VStr ''hash2''), (''role'', VEnum ''USER''),
          (''createdAt'', VTime 2), (''updatedAt'', VTime 2)] ],
     ''Transactions'' :=
       [ [(''id'', VInt 1), (''userId'', VInt 1), (''bookId'', VInt 1), (''borrowedAt'', VTime 5)] ])"

definition double_borrow :: tables where
  "double_borrow = library_state
    (''Transactions'' :=
       [ [(''id'', VInt 1), (''userId'', VInt 1), (''bookId'', VInt 1), (''borrowedAt'', VTime 5)],
         [(''id'', VInt 2), (''userId'', VInt 2), (''bookId'', VInt 1), (''borrowedAt'', VTime 6)] ])"

section \<open>Properties of the router\<close>

lemma run_chain_middleware_prefix:
  "\<not> is_controller h \<Longrightarrow> run_chain env (pre @ [Controller c]) req = (t, Some (h, resp))
    \<Longrightarrow> list_all (\<lambda>x. \<not> is_controller x) pre \<Longrightarrow> list_all (\<lambda>x. \<not> is_controller x) t"
proof (induction pre arbitrary: req t)
  case Nil
  then show ?case by (auto split: outcome.splits)
next
  case (Cons a pre)
  show ?case
  proof (cases "env a req")
    case (Respond p)
    with Cons.prems show ?thesis by auto
  next
    case (Next req')
    obtain t' out where r: "run_chain env (pre @ [Controller c]) req' = (t', out)"
      by (cases "run_chain env (pre @ [Controller c]) req'") auto
    with Next Cons.prems have t: "t = a # t'" and o: "out = Some (h, resp)" by auto
    from Cons.IH [OF Cons.prems(1) r [unfolded o]] Cons.prems(3)
    have "list_all (\<lambda>x. \<not> is_controller x) t'" by simp
    with t Cons.prems(3) show ?thesis by simp
  qed
qed

lemma run_chain_controller_last:
  "list_all (\<lambda>x. \<not> is_controller x) pre \<Longrightarrow> Controller d \<in> set (fst (run_chain env (pre @ [Controller c]) req))
    \<Longrightarrow> fst (run_chain env (pre @ [Controller c]) req) = pre @ [Controller c]"
proof (induction pre arbitrary: req)
  case Nil
  then show ?case by (auto split: outcome.splits)
next
  case (Cons a pre)
  from Cons.prems(1) have a: "\<not> is_controller a" and pre: "list_all (\<lambda>x. \<not> is_controller x) pre"
    by simp_all
  from a have ne: "a \<noteq> Controller d" by auto
  show ?case
  proof (cases "env a req")
    case (Respond p)
    with Cons.prems(2) ne show ?thesis by simp
  next
    case (Next req')
    with Cons.prems(2) ne have "Controller d \<in> set (fst (run_chain env (pre @ [Controller c]) req'))"
      by (auto split: prod.splits)
    from Cons.IH [OF pre this] Next show ?thesis
      by (auto split: prod.splits)
  qed
qed

lemma bookRouter_shape:
  "r \<in> set bookRouter \<Longrightarrow>
     \<exists>pre c. chain r = pre @ [Controller c] \<and> list_all (\<lambda>h. \<not> is_controller h) pre"
  unfolding bookRouter_def by auto

text \<open>
  C5. The book router binds exactly seven verb and path pairs, each to exactly one
  controller: POST /book/add to addBook, PUT /book/update/:id to updateBookDetails,
  DELETE /book/delete/:id to deleteBookById, GET /book/:id to getBook,
  GET /book/borrowed/:id to getAllBooksBorrowedByUser, GET /books to getBooks and
  GET /books/frequently-borrowed to getFrequentlyBorrowedBooks. No verb and path pair is
  declared twice.
\<close>

theorem bookRouter_bindings:
  "map binding bookRouter =
     [ (POST, ''/book/add'', [addBook]),
       (PUT, ''/book/update/:id'', [updateBookDetails]),
       (DELETE, ''/book/delete/:id'', [deleteBookById]),
       (GET, ''/book/:id'', [getBook]),
       (GET, ''/book/borrowed/:id'', [getAllBooksBorrowedByUser]),
       (GET, ''/books'', [getBooks]),
       (GET, ''/books/frequently-borrowed'', [getFrequentlyBorrowedBooks]) ]
   \<and> distinct (map (\<lambda>r. (verb r, path r)) bookRouter)"
  by (simp add: bookRouter_def binding_def)

text \<open>
  C6. In every route of the book router the chain is a list of middlewares followed by
  the controller, so validation rules, isAuthenticated and the validation-error guard
  all stand strictly before the controller. Whatever the handlers do: when the request
  is ended by a middleware (a failed authentication, or the guard finding validation
  errors), no controller has been invoked; and a controller is invoked only after every
  middleware of the chain has run and called next. On POST /book/add and
  PUT /book/update/:id the order is validation rules, isAuthenticated, guard, controller.
\<close>

theorem middleware_before_controller:
  assumes "r \<in> set bookRouter"
  shows "(\<exists>pre c. chain r = pre @ [Controller c] \<and> list_all (\<lambda>h. \<not> is_controller h) pre)
    \<and> (\<forall>(env :: handler \<Rightarrow> 'q \<Rightarrow> ('q, 'p) outcome) req t h resp.
          run_chain env (chain r) req = (t, Some (h, resp)) \<and> \<not> is_controller h
          \<longrightarrow> list_all (\<lambda>x. \<not> is_controller x) t)
    \<and> (\<forall>(env :: handler \<Rightarrow> 'q \<Rightarrow> ('q, 'p) outcome) req d. Controller d \<in> set (fst (run_chain env (chain r) req))
          \<longrightarrow> fst (run_chain env (chain r) req) = chain r)
    \<and> chain_of bookRouter POST ''/book/add''
         = Some [addBookValidation, isAuthenticated, handleValidationErrors, Controller addBook]
    \<and> chain_of bookRouter PUT ''/book/update/:id''
         = Some [updateBookValidation, isAuthenticated, handleValidationErrors,
                 Controller updateBookDetails]"
proof -
  from bookRouter_shape [OF assms] obtain pre c
    where ch: "chain r = pre @ [Controller c]" and pre: "list_all (\<lambda>h. \<not> is_controller h) pre"
    by blast
  show ?thesis
  proof (intro conjI allI impI)
    show "\<exists>pre c. chain r = pre @ [Controller c] \<and> list_all (\<lambda>h. \<not> is_controller h) pre"
      using ch pre by blast
  next
    fix env :: "handler \<Rightarrow> 'q \<Rightarrow> ('q, 'p) outcome" and req t h resp
    assume A: "run_chain env (chain r) req = (t, Some (h, resp)) \<and> \<not> is_controller h"
    from A have 1: "\<not> is_controller h" by simp
    from A have 2: "run_chain env (pre @ [Controller c]) req = (t, Some (h, resp))"
      by (simp add: ch)
    show "list_all (\<lambda>x. \<not> is_controller x) t"
      by (rule run_chain_middleware_prefix [OF 1 2 pre])
  next
    fix env :: "handler \<Rightarrow> 'q \<Rightarrow> ('q, 'p) outcome" and req d
    assume "Controller d \<in> set (fst (run_chain env (chain r) req))"
    then have "Controller d \<in> set (fst (run_chain env (pre @ [Controller c]) req))"
      by (simp add: ch)
    from run_chain_controller_last [OF pre this]
    show "fst (run_chain env (chain r) req) = chain r"
      by (simp add: ch)
  next
    show "chain_of bookRouter POST ''/book/add''
         = Some [addBookValidation, isAuthenticated, handleValidationErrors, Controller addBook]"
      by (simp add: chain_of_def bookRouter_def)
  next
    show "chain_of bookRouter PUT ''/book/update/:id''
         = Some [updateBookValidation, isAuthenticated, handleValidationErrors,
                 Controller updateBookDetails]"
      by (simp add: chain_of_def bookRouter_def)
  qed
qed

theorem middleware_before_controller_witness:
  "\<lparr>verb = POST, path = ''/book/add'',
     chain = [addBookValidation, isAuthenticated, handleValidationErrors, Controller addBook]\<rparr>
     \<in> set bookRouter
   \<and> run_chain (\<lambda>h tok. if h = isAuthenticated \<and> \<not> tok then Respond (401 :: nat) else Next tok)
        [addBookValidation, isAuthenticated, handleValidationErrors, Controller addBook] False
      = ([addBookValidation, isAuthenticated], Some (isAuthenticated, 401))
   \<and> list_all (\<lambda>x. \<not> is_controller x) [addBookValidation, isAuthenticated]"
proof -
  let ?r = "\<lparr>verb = POST, path = ''/book/add'',
     chain = [addBookValidation, isAuthenticated, handleValidationErrors, Controller addBook]\<rparr>"
  let ?env = "\<lambda>h tok. if h = isAuthenticated \<and> \<not> tok then Respond (401 :: nat) else Next tok"
  have m: "?r \<in> set bookRouter" by (simp add: bookRouter_def)
  have run: "run_chain ?env (chain ?r) False
      = ([addBookValidation, isAuthenticated], Some (isAuthenticated, 401)) \<and> \<not> is_controller isAuthenticated"
    by simp
  note T = middleware_before_controller [OF m, THEN conjunct2, THEN conjunct1, rule_format]
  have "list_all (\<lambda>x. \<not> is_controller x) [addBookValidation, isAuthenticated]"
    by (rule T [OF run])
  with m run show ?thesis by simp
qed

text \<open>
  C9. GET /book/:id, GET /books and GET /books/frequently-borrowed are registered
  without isAuthenticated: their chain is the controller alone, which is therefore the
  first handler invoked whatever the request carries. POST /book/add,
  PUT /book/update/:id, DELETE /book/delete/:id and GET /book/borrowed/:id all have
  isAuthenticated in their chain.
\<close>

theorem read_routes_unauthenticated:
  "map (\<lambda>r. (verb r, path r, isAuthenticated \<in> set (chain r))) bookRouter =
     [ (POST, ''/book/add'', True),
       (PUT, ''/book/update/:id'', True),
       (DELETE, ''/book/delete/:id'', True),
       (GET, ''/book/:id'', False),
       (GET, ''/book/borrowed/:id'', True),
       (GET, ''/books'', False),
       (GET, ''/books/frequently-borrowed'', False) ]
   \<and> chain_of bookRouter GET ''/book/:id'' = Some [Controller getBook]
   \<and> chain_of bookRouter GET ''/books'' = Some [Controller getBooks]
   \<and> chain_of bookRouter GET ''/books/frequently-borrowed''
        = Some [Controller getFrequentlyBorrowedBooks]
   \<and> fst (run_chain env [Controller getBook] req) = [Controller getBook]
   \<and> fst (run_chain env [Controller getBooks] req) = [Controller getBooks]
   \<and> fst (run_chain env [Controller getFrequentlyBorrowedBooks] req)
        = [Controller getFrequentlyBorrowedBooks]"
  by (simp add: bookRouter_def chain_of_def split: outcome.splits)

section \<open>Properties of the registration validation\<close>

lemma lowercase_range:
  "in_item (Range (CHR ''a'') (CHR ''z'')) c = (c \<in> set ''abcdefghijklmnopqrstuvwxyz'')"
  by (cases c) (simp split: bool.splits)

lemma uppercase_range:
  "in_item (Range (CHR ''A'') (CHR ''Z'')) c = (c \<in> set ''ABCDEFGHIJKLMNOPQRSTUVWXYZ'')"
  by (cases c) (simp split: bool.splits)

lemma digit_range:
  "in_item (Range (CHR ''0'') (CHR ''9'')) c = (c \<in> set ''0123456789'')"
  by (cases c) (simp split: bool.splits)

lemma passes_lowercase:
  "passes em (matches [Range (CHR ''a'') (CHR ''z'')]) s = has_lowercase s"
  apply (simp only: passes.simps list_ex_Cons_iff list_ex_Nil_iff simp_thms lowercase_range)
  apply (simp only: has_lowercase_def list_ex_iff)
  done

lemma passes_uppercase:
  "passes em (matches [Range (CHR ''A'') (CHR ''Z'')]) s = has_uppercase s"
  apply (simp only: passes.simps list_ex_Cons_iff list_ex_Nil_iff simp_thms uppercase_range)
  apply (simp only: has_uppercase_def list_ex_iff)
  done

lemma passes_digit:
  "passes em (matches [Range (CHR ''0'') (CHR ''9'')]) s = has_digit s"
  apply (simp only: passes.simps list_ex_Cons_iff list_ex_Nil_iff simp_thms digit_range)
  apply (simp only: has_digit_def list_ex_iff)
  done

lemma passes_special:
  "passes em (matches [Single (CHR ''!''), Single (CHR ''@''), Single (CHR ''#''), Single (CHR ''$''),
                    Single (CHR ''%''), Single (CHR ''^''), Single (CHR ''&''), Single (CHR ''*''),
                    Single (CHR ''(''), Single (CHR '')''), Single (CHR '',''), Single (CHR ''.''),
                    Single (CHR ''?''), Single (CHR 0x22), Single (CHR '':''), Single (CHR ''{''),
                    Single (CHR ''}''), Single (CHR ''|''), Single (CHR ''<''), Single (CHR ''>'')]) s
   = has_special s"
  apply (simp only: passes.simps list_ex_Cons_iff list_ex_Nil_iff simp_thms in_item.simps)
  apply (simp only: has_special_def list_ex_iff append.simps set_simps insert_iff empty_iff simp_thms)
  done

lemma run_validation_registration:
  "run_validation em registrationValidation b =
     (if em (field_value b ''email'') then [] else [(''email'', ''Invalid email format'')])
   @ (if 8 \<le> length (field_value b ''password'') then []
      else [(''password'', ''Password should be at least 8 characters long'')])
   @ (if has_lowercase (field_value b ''password'') then []
      else [(''password'', ''Password should contain at least one lowercase letter'')])
   @ (if has_uppercase (field_value b ''password'') then []
      else [(''password'', ''Password should contain at least one uppercase letter'')])
   @ (if has_digit (field_value b ''password'') then []
      else [(''password'', ''Password should contain at least one digit'')])
   @ (if has_special (field_value b ''password'') then []
      else [(''password'', ''Password should contain at least one special character'')])
   @ (if field_value b ''fullName'' \<noteq> [] then [] else [(''fullName'', ''Full name is required'')])
   @ (if field_value b ''username'' \<noteq> [] then [] else [(''username'', ''Company name is required'')])"
proof -
  have email: "run_field em b (''email'', [(isEmail, ''Invalid email format'')])
      = (if em (field_value b ''email'') then [] else [(''email'', ''Invalid email format'')])"
    by (simp add: run_field_def)
  have full: "run_field em b (''fullName'', [(notEmpty, ''Full name is required'')])
      = (if field_value b ''fullName'' \<noteq> [] then [] else [(''fullName'', ''Full name is required'')])"
    by (simp add: run_field_def)
  have user: "run_field em b (''username'', [(notEmpty, ''Company name is required'')])
      = (if field_value b ''username'' \<noteq> [] then [] else [(''username'', ''Company name is required'')])"
    by (simp add: run_field_def)
  have cons: "\<And>f v m vs. run_field em b (f, (v, m) # vs)
      = (if passes em v (field_value b f) then [] else [(f, m)]) @ run_field em b (f, vs)"
    by (simp add: run_field_def)
  have nil: "\<And>f. run_field em b (f, []) = []"
    by (simp add: run_field_def)
  show ?thesis
    unfolding run_validation_def registrationValidation_def list.map concat.simps
      email full user
    by (simp only: cons nil passes_lowercase passes_uppercase passes_digit passes_special
          passes.simps(2) append_Nil2 append_assoc)
qed







text \<open>
  C8. For every registration request body whose username is missing or empty, the
  validation chain records a failure for the field username with the message
  "Company name is required"; the User model nevertheless declares username as an
  optional column.
\<close>

theorem username_required_by_registration:
  assumes "b ''username'' = None \<or> b ''username'' = Some []"
  shows "(''username'', ''Company name is required'')
            \<in> set (run_validation em registrationValidation b)
    \<and> field_of User ''username'' = Some (Field ''username'' TString Optional [AtUnique])"
proof -
  from assms have "field_value b ''username'' = []"
    by (auto simp: field_value_def)
  then have "(''username'', ''Company name is required'')
            \<in> set (run_validation em registrationValidation b)"
    unfolding run_validation_registration by simp
  moreover have "field_of User ''username'' = Some (Field ''username'' TString Optional [AtUnique])"
    by (simp add: field_of_def User_def)
  ultimately show ?thesis by simp
qed

theorem username_required_by_registration_witness:
  "(''username'', ''Company name is required'')
      \<in> set (run_validation (\<lambda>s. True) registrationValidation
               [''email'' \<mapsto> ''a@b.co'', ''password'' \<mapsto> ''Abcdefg1!'', ''fullName'' \<mapsto> ''Ann''])
   \<and> (''username'', ''Company name is required'')
      \<in> set (run_validation (\<lambda>s. True) registrationValidation [''username'' \<mapsto> []])"
proof -
  have a: "[''email'' \<mapsto> ''a@b.co'', ''password'' \<mapsto> ''Abcdefg1!'', ''fullName'' \<mapsto> ''Ann'']
             ''username'' = None
           \<or> [''email'' \<mapsto> ''a@b.co'', ''password'' \<mapsto> ''Abcdefg1!'', ''fullName'' \<mapsto> ''Ann'']
             ''username'' = Some []"
    by simp
  have b: "[''username'' \<mapsto> []] ''username'' = None \<or> [''username'' \<mapsto> []] ''username'' = Some []"
    by simp
  note T1 = username_required_by_registration
    [where b = "[''email'' \<mapsto> ''a@b.co'', ''password'' \<mapsto> ''Abcdefg1!'', ''fullName'' \<mapsto> ''Ann'']"
       and em = "\<lambda>s. True", OF a]
  note T2 = username_required_by_registration
    [where b = "[''username'' \<mapsto> []]" and em = "\<lambda>s. True", OF b]
  from T1 T2 show ?thesis by blast
qed

section \<open>Properties of the schema\<close>

lemma map_filter_mem:
  "k < length xs \<Longrightarrow> g (xs ! k) = Some v \<Longrightarrow> v \<in> set (List.map_filter g xs)"
proof (induction xs arbitrary: k)
  case Nil
  then show ?case by simp
next
  case (Cons x xs)
  show ?case
  proof (cases k)
    case 0
    with Cons.prems show ?thesis by simp
  next
    case (Suc k')
    with Cons.prems have "v \<in> set (List.map_filter g xs)"
      by (intro Cons.IH [of k']) simp_all
    then show ?thesis by (simp split: option.splits)
  qed
qed

lemma map_filter_mem_set:
  "x \<in> set xs \<Longrightarrow> g x = Some v \<Longrightarrow> v \<in> set (List.map_filter g xs)"
  by (induction xs) (auto split: option.splits)

lemma map_filter_app:
  "List.map_filter g (xs @ ys) = List.map_filter g xs @ List.map_filter g ys"
  by (induction xs) (simp_all split: option.splits)

lemma distinct_map_filter_less:
  "distinct (List.map_filter g xs) \<Longrightarrow> i < j \<Longrightarrow> j < length xs
     \<Longrightarrow> g (xs ! i) = Some v \<Longrightarrow> g (xs ! j) \<noteq> Some v"
proof (induction xs arbitrary: i j)
  case Nil
  then show ?case by simp
next
  case (Cons x xs)
  from Cons.prems(2) obtain j' where j: "j = Suc j'" by (cases j) auto
  with Cons.prems(3) have j'len: "j' < length xs" by simp
  show ?case
  proof (cases i)
    case 0
    with Cons.prems(4) have gx: "g x = Some v" by simp
    with Cons.prems(1) have nin: "v \<notin> set (List.map_filter g xs)" by simp
    have "g (xs ! j') \<noteq> Some v"
    proof
      assume "g (xs ! j') = Some v"
      from map_filter_mem [where g = g, OF j'len this] nin show False by simp
    qed
    with j show ?thesis by simp
  next
    case (Suc i')
    from Cons.prems(1) have d: "distinct (List.map_filter g xs)"
      by (simp split: option.splits)
    from Suc j Cons.prems(2) have "i' < j'" by simp
    moreover from Suc Cons.prems(4) have "g (xs ! i') = Some v" by simp
    ultimately have "g (xs ! j') \<noteq> Some v"
      by (rule Cons.IH [OF d _ j'len])
    with j show ?thesis by simp
  qed
qed

lemma distinct_map_filter_neq:
  assumes "distinct (List.map_filter g xs)" and "i \<noteq> j" and "i < length xs" and "j < length xs"
    and "g (xs ! i) = Some v"
  shows "g (xs ! j) \<noteq> Some v"
proof (cases "i < j")
  case True
  from distinct_map_filter_less [OF assms(1) True assms(4) assms(5)] show ?thesis .
next
  case False
  with assms(2) have ji: "j < i" by simp
  show ?thesis
  proof
    assume "g (xs ! j) = Some v"
    from distinct_map_filter_less [OF assms(1) ji assms(3) this] assms(5) show False by simp
  qed
qed

lemma model_ok_field:
  assumes "model_ok S tbl m" and "f \<in> set (mfields m)"
  shows "unique_ok f (tbl (mname m))"
    and "\<And>r. r \<in> set (tbl (mname m)) \<Longrightarrow> column_ok (enums S) f r"
    and "\<And>r. r \<in> set (tbl (mname m)) \<Longrightarrow> relation_ok tbl f r"
  using assms by (simp_all add: model_ok_def list_all_iff)

lemma db_ok_model:
  "db_ok S tbl \<Longrightarrow> m \<in> set (models S) \<Longrightarrow> model_ok S tbl m"
  by (simp add: db_ok_def list_all_iff)

lemma models_prisma_schema:
  "Book \<in> set (models prisma_schema)" "User \<in> set (models prisma_schema)"
  "Transactions \<in> set (models prisma_schema)"
  by (simp_all add: prisma_schema_def)

lemma mname_models [simp]:
  "mname Book = ''Book''" "mname User = ''User''" "mname Transactions = ''Transactions''"
  by (simp_all add: Book_def User_def Transactions_def)

lemma key_distinct:
  "unique_ok (Field n ty md as) rows \<Longrightarrow> AtId \<in> set as \<or> AtUnique \<in> set as
     \<Longrightarrow> distinct (List.map_filter (\<lambda>r. map_of r n) rows)"
  by (simp add: unique_ok_def is_key_def)

lemma book_isbn_field: "Field ''isbn'' TString Optional [AtUnique] \<in> set (mfields Book)"
  by (simp add: Book_def)

lemma book_id_field: "Field ''id'' TInt Required [AtId, AtDefault autoincrement] \<in> set (mfields Book)"
  by (simp add: Book_def)

lemma user_email_field: "Field ''email'' TString Required [AtUnique] \<in> set (mfields User)"
  by (simp add: User_def)

lemma user_username_field: "Field ''username'' TString Optional [AtUnique] \<in> set (mfields User)"
  by (simp add: User_def)

lemma user_role_field:
  "Field ''role'' (TEnum ''UserRole'') Required [AtDefault (DEnum ''USER'')] \<in> set (mfields User)"
  by (simp add: User_def)

lemma transactions_book_field:
  "Field ''Book'' (TModel ''Book'') Required [AtRelation [''bookId''] [''id'']]
     \<in> set (mfields Transactions)"
  by (simp add: Transactions_def)

lemma book_isbn_distinct:
  assumes "db_ok prisma_schema tbl"
  shows "distinct (List.map_filter (\<lambda>r. map_of r ''isbn'') (tbl ''Book''))"
proof -
  from assms have "model_ok prisma_schema tbl Book"
    by (rule db_ok_model) (rule models_prisma_schema)
  from model_ok_field(1) [OF this book_isbn_field] show ?thesis
    by (simp add: key_distinct)
qed

lemma book_id_distinct:
  assumes "model_ok S tbl Book"
  shows "distinct (List.map_filter (\<lambda>r. map_of r ''id'') (tbl ''Book''))"
  using model_ok_field(1) [OF assms book_id_field] by (simp add: key_distinct)

lemma user_email_distinct:
  assumes "db_ok prisma_schema tbl"
  shows "distinct (List.map_filter (\<lambda>r. map_of r ''email'') (tbl ''User''))"
proof -
  from assms have "model_ok prisma_schema tbl User"
    by (rule db_ok_model) (rule models_prisma_schema)
  from model_ok_field(1) [OF this user_email_field] show ?thesis
    by (simp add: key_distinct)
qed

lemma user_username_distinct:
  assumes "db_ok prisma_schema tbl"
  shows "distinct (List.map_filter (\<lambda>r. map_of r ''username'') (tbl ''User''))"
proof -
  from assms have "model_ok prisma_schema tbl User"
    by (rule db_ok_model) (rule models_prisma_schema)
  from model_ok_field(1) [OF this user_username_field] show ?thesis
    by (simp add: key_distinct)
qed

lemma user_email_present:
  assumes "db_ok prisma_schema tbl" and r: "r \<in> set (tbl ''User'')"
  shows "\<exists>s. map_of r ''email'' = Some (VStr s)"
proof -
  from assms(1) have "model_ok prisma_schema tbl User"
    by (rule db_ok_model) (rule models_prisma_schema)
  from model_ok_field(2) [OF this user_email_field] r
  have c: "column_ok (enums prisma_schema) (Field ''email'' TString Required [AtUnique]) r"
    by simp
  show ?thesis
  proof (cases "map_of r ''email''")
    case None
    with c show ?thesis by (simp add: column_ok_def)
  next
    case (Some v)
    with c show ?thesis by (cases v) (simp_all add: column_ok_def)
  qed
qed

lemma user_role_values:
  assumes "db_ok prisma_schema tbl" and r: "r \<in> set (tbl ''User'')"
  shows "map_of r ''role'' = Some (VEnum ''ADMIN'') \<or> map_of r ''role'' = Some (VEnum ''USER'')"
proof -
  from assms(1) have "model_ok prisma_schema tbl User"
    by (rule db_ok_model) (rule models_prisma_schema)
  from model_ok_field(2) [OF this user_role_field] r
  have c: "column_ok (enums prisma_schema)
      (Field ''role'' (TEnum ''UserRole'') Required [AtDefault (DEnum ''USER'')]) r"
    by simp
  have e: "map_of (enums prisma_schema) ''UserRole'' = Some [''ADMIN'', ''USER'']"
    by (simp add: prisma_schema_def UserRole_def)
  show ?thesis
  proof (cases "map_of r ''role''")
    case None
    with c show ?thesis by (simp add: column_ok_def)
  next
    case (Some v)
    with c e show ?thesis
      by (cases v) (simp_all add: column_ok_def)
  qed
qed

lemma library_state_ok: "db_ok prisma_schema library_state"
  by code_simp

lemma double_borrow_ok: "db_ok prisma_schema double_borrow"
  by code_simp

text \<open>
  C2. The Transactions model declares foreign keys to User and Book and the three
  indexes on userId, bookId and borrowedAt; its only key column is id. The schema
  therefore admits a state in which one book has two open transactions: the invariant
  "at most one open transaction per book" is not enforced by the schema.
\<close>

theorem transactions_admit_double_borrow:
  "foreign_keys Transactions
     = [([''userId''], ''User'', [''id'']), ([''bookId''], ''Book'', [''id''])]
   \<and> mindexes Transactions
     = [ Index [''userId''] ''idx_transactions_user'',
         Index [''bookId''] ''idx_transactions_book'',
         Index [''borrowedAt''] ''idx_transactions_borrowed_at'' ]
   \<and> key_columns Transactions = [''id'']
   \<and> db_ok prisma_schema double_borrow
   \<and> length (open_transactions double_borrow (VInt 1)) = 2"
proof -
  have "foreign_keys Transactions
     = [([''userId''], ''User'', [''id'']), ([''bookId''], ''Book'', [''id''])]"
    by (simp add: foreign_keys_def Transactions_def)
  moreover have "mindexes Transactions
     = [ Index [''userId''] ''idx_transactions_user'',
         Index [''bookId''] ''idx_transactions_book'',
         Index [''borrowedAt''] ''idx_transactions_borrowed_at'' ]"
    by (simp add: Transactions_def)
  moreover have "key_columns Transactions = [''id'']"
    by (simp add: key_columns_def Transactions_def is_key_def)
  moreover have "length (open_transactions double_borrow (VInt 1)) = 2"
    by code_simp
  ultimately show ?thesis using double_borrow_ok by simp
qed

text \<open>
  C7. The @@index declarations of the schema are exactly four, each with an explicit
  name: the composite index on (title, author) of Book, and the single-column indexes
  on userId, bookId and borrowedAt of Transactions.
\<close>

theorem schema_named_indexes:
  "all_indexes prisma_schema =
     [ (''Book'', [''title'', ''author''], ''idx_book_search''),
       (''Transactions'', [''userId''], ''idx_transactions_user''),
       (''Transactions'', [''bookId''], ''idx_transactions_book''),
       (''Transactions'', [''borrowedAt''], ''idx_transactions_borrowed_at'') ]"
  by (simp add: all_indexes_def prisma_schema_def Book_def User_def Transactions_def)

text \<open>
  C3. The isbn field of Book is declared as an optional string with a unique
  constraint, and in every state the database accepts no two different Book rows hold
  the same non-null ISBN.
\<close>

theorem isbn_unique_when_present:
  assumes "db_ok prisma_schema tbl"
    and "i < length (tbl ''Book'')" and "j < length (tbl ''Book'')" and "i \<noteq> j"
    and "map_of (tbl ''Book'' ! i) ''isbn'' = Some v"
  shows "map_of (tbl ''Book'' ! j) ''isbn'' \<noteq> Some v
    \<and> field_of Book ''isbn'' = Some (Field ''isbn'' TString Optional [AtUnique])"
proof -
  have "map_of (tbl ''Book'' ! j) ''isbn'' \<noteq> Some v"
    by (rule distinct_map_filter_neq
          [where g = "\<lambda>r. map_of r ''isbn''", OF book_isbn_distinct [OF assms(1)] assms(4) assms(2) assms(3) assms(5)])
  moreover have "field_of Book ''isbn'' = Some (Field ''isbn'' TString Optional [AtUnique])"
    by (simp add: field_of_def Book_def)
  ultimately show ?thesis by simp
qed

theorem isbn_unique_when_present_witness:
  "db_ok prisma_schema library_state
   \<and> map_of (library_state ''Book'' ! 0) ''isbn'' = Some (VStr ''9780743273565'')
   \<and> map_of (library_state ''Book'' ! 1) ''isbn'' \<noteq> Some (VStr ''9780743273565'')
   \<and> map_of (library_state ''Book'' ! 2) ''isbn'' = None
   \<and> map_of (library_state ''Book'' ! 3) ''isbn'' = None"
proof -
  have l0: "(0::nat) < length (library_state ''Book'')" by code_simp
  have l1: "(1::nat) < length (library_state ''Book'')" by code_simp
  have v: "map_of (library_state ''Book'' ! 0) ''isbn'' = Some (VStr ''9780743273565'')"
    by code_simp
  have n2: "map_of (library_state ''Book'' ! 2) ''isbn'' = None" by code_simp
  have n3: "map_of (library_state ''Book'' ! 3) ''isbn'' = None" by code_simp
  have ne: "(0::nat) \<noteq> 1" by simp
  from isbn_unique_when_present [OF library_state_ok l0 l1 ne v]
  have "map_of (library_state ''Book'' ! 1) ''isbn'' \<noteq> Some (VStr ''9780743273565'')"
    by (rule conjunct1)
  with library_state_ok v n2 n3 show ?thesis by simp
qed

text \<open>
  C4. The User model declares a required unique email, an optional unique username, an
  optional phone number, optional access and refresh tokens, and a role of the enum
  UserRole (ADMIN or USER) with default USER. In every state the database accepts,
  every User row has an email and a role that is ADMIN or USER, two different rows have
  different emails, and their usernames differ when both are non-null.
\<close>

theorem user_model_constraints:
  assumes "db_ok prisma_schema tbl"
    and "i < length (tbl ''User'')" and "j < length (tbl ''User'')" and "i \<noteq> j"
  shows "map_of (tbl ''User'' ! i) ''email'' \<noteq> None
    \<and> map_of (tbl ''User'' ! i) ''email'' \<noteq> map_of (tbl ''User'' ! j) ''email''
    \<and> (map_of (tbl ''User'' ! i) ''username'' \<noteq> None \<and> map_of (tbl ''User'' ! j) ''username'' \<noteq> None
          \<longrightarrow> map_of (tbl ''User'' ! i) ''username'' \<noteq> map_of (tbl ''User'' ! j) ''username'')
    \<and> (map_of (tbl ''User'' ! i) ''role'' = Some (VEnum ''ADMIN'')
          \<or> map_of (tbl ''User'' ! i) ''role'' = Some (VEnum ''USER''))
    \<and> field_of User ''email'' = Some (Field ''email'' TString Required [AtUnique])
    \<and> field_of User ''username'' = Some (Field ''username'' TString Optional [AtUnique])
    \<and> field_of User ''phoneNumber'' = Some (Field ''phoneNumber'' TString Optional [])
    \<and> field_of User ''accessToken'' = Some (Field ''accessToken'' TString Optional [])
    \<and> field_of User ''refreshToken'' = Some (Field ''refreshToken'' TString Optional [])
    \<and> field_of User ''role''
         = Some (Field ''role'' (TEnum ''UserRole'') Required [AtDefault (DEnum ''USER'')])
    \<and> enums prisma_schema = [(''UserRole'', [''ADMIN'', ''USER''])]"
proof -
  from assms(2) have ri: "tbl ''User'' ! i \<in> set (tbl ''User'')" by simp
  from user_email_present [OF assms(1) ri] obtain s
    where e: "map_of (tbl ''User'' ! i) ''email'' = Some (VStr s)" by blast
  have 1: "map_of (tbl ''User'' ! i) ''email'' \<noteq> None" using e by simp
  have "map_of (tbl ''User'' ! j) ''email'' \<noteq> Some (VStr s)"
    by (rule distinct_map_filter_neq
          [where g = "\<lambda>r. map_of r ''email''", OF user_email_distinct [OF assms(1)] assms(4) assms(2) assms(3) e])
  with e have 2: "map_of (tbl ''User'' ! i) ''email'' \<noteq> map_of (tbl ''User'' ! j) ''email''"
    by simp
  have 3: "map_of (tbl ''User'' ! i) ''username'' \<noteq> None \<and> map_of (tbl ''User'' ! j) ''username'' \<noteq> None
          \<longrightarrow> map_of (tbl ''User'' ! i) ''username'' \<noteq> map_of (tbl ''User'' ! j) ''username''"
  proof
    assume "map_of (tbl ''User'' ! i) ''username'' \<noteq> None \<and> map_of (tbl ''User'' ! j) ''username'' \<noteq> None"
    then obtain u where u: "map_of (tbl ''User'' ! i) ''username'' = Some u" by auto
    have "map_of (tbl ''User'' ! j) ''username'' \<noteq> Some u"
      by (rule distinct_map_filter_neq
            [where g = "\<lambda>r. map_of r ''username''", OF user_username_distinct [OF assms(1)] assms(4) assms(2) assms(3) u])
    with u show "map_of (tbl ''User'' ! i) ''username'' \<noteq> map_of (tbl ''User'' ! j) ''username''"
      by simp
  qed
  note 4 = user_role_values [OF assms(1) ri]
  have 5: "field_of User ''email'' = Some (Field ''email'' TString Required [AtUnique])"
    by (simp add: field_of_def User_def)
  have 6: "field_of User ''username'' = Some (Field ''username'' TString Optional [AtUnique])"
    by (simp add: field_of_def User_def)
  have 7: "field_of User ''phoneNumber'' = Some (Field ''phoneNumber'' TString Optional [])"
    by (simp add: field_of_def User_def)
  have 8: "field_of User ''accessToken'' = Some (Field ''accessToken'' TString Optional [])"
    by (simp add: field_of_def User_def)
  have 9: "field_of User ''refreshToken'' = Some (Field ''refreshToken'' TString Optional [])"
    by (simp add: field_of_def User_def)
  have 10: "field_of User ''role''
         = Some (Field ''role'' (TEnum ''UserRole'') Required [AtDefault (DEnum ''USER'')])"
    by (simp add: field_of_def User_def)
  have 11: "enums prisma_schema = [(''UserRole'', [''ADMIN'', ''USER''])]"
    by (simp add: prisma_schema_def UserRole_def)
  show ?thesis
    by (intro conjI) (rule 1 2 3 4 5 6 7 8 9 10 11)+
qed

theorem user_model_constraints_witness:
  "db_ok prisma_schema library_state
   \<and> map_of (library_state ''User'' ! 0) ''email'' = Some (VStr ''ann@example.com'')
   \<and> map_of (library_state ''User'' ! 1) ''email'' = Some (VStr ''bob@example.com'')
   \<and> map_of (library_state ''User'' ! 0) ''email'' \<noteq> map_of (library_state ''User'' ! 1) ''email''
   \<and> map_of (library_state ''User'' ! 1) ''username'' = None"
proof -
  have l0: "(0::nat) < length (library_state ''User'')" by code_simp
  have l1: "(1::nat) < length (library_state ''User'')" by code_simp
  have ne: "(0::nat) \<noteq> 1" by simp
  have a: "map_of (library_state ''User'' ! 0) ''email'' = Some (VStr ''ann@example.com'')"
    by code_simp
  have b: "map_of (library_state ''User'' ! 1) ''email'' = Some (VStr ''bob@example.com'')"
    by code_simp
  have c: "map_of (library_state ''User'' ! 1) ''username'' = None"
    by code_simp
  from user_model_constraints [OF library_state_ok l0 l1 ne]
  have "map_of (library_state ''User'' ! 0) ''email'' \<noteq> map_of (library_state ''User'' ! 1) ''email''"
    by (elim conjE)
  with library_state_ok a b c show ?thesis by simp
qed

subsection \<open>Creating a Book row\<close>

lemma new_value_name:
  "new_value nv t input x = Some (k, v) \<Longrightarrow> k = fname x"
  by (auto simp: new_value_def split: if_splits)

lemma new_row_absent:
  "n \<notin> fname ` set fs \<Longrightarrow> map_of (List.map_filter (new_value nv t input) fs) n = None"
proof (induction fs)
  case Nil
  then show ?case by simp
next
  case (Cons x xs)
  then have IH: "map_of (List.map_filter (new_value nv t input) xs) n = None"
    and ne: "fname x \<noteq> n" by auto
  show ?case
  proof (cases "new_value nv t input x")
    case None
    with IH show ?thesis by simp
  next
    case (Some p)
    obtain k v where p: "p = (k, v)" by (cases p)
    with Some new_value_name have "k = fname x" by blast
    with Some p IH ne show ?thesis by simp
  qed
qed

lemma new_row_lookup:
  "distinct (map fname fs) \<Longrightarrow> f \<in> set fs \<Longrightarrow> is_column f
     \<Longrightarrow> map_of (List.map_filter (new_value nv t input) fs) (fname f)
         = (case map_of input (fname f) of
              Some v \<Rightarrow> Some v
            | None \<Rightarrow> default_value nv t (attrs f))"
proof (induction fs)
  case Nil
  then show ?case by simp
next
  case (Cons x xs)
  show ?case
  proof (cases "x = f")
    case True
    from Cons.prems(1) True have "fname f \<notin> fname ` set xs" by simp
    then have rest: "map_of (List.map_filter (new_value nv t input) xs) (fname f) = None"
      by (rule new_row_absent)
    from Cons.prems(3) have nvf: "new_value nv t input f
        = map_option (Pair (fname f))
            (case map_of input (fname f) of
               Some v \<Rightarrow> Some v
             | None \<Rightarrow> default_value nv t (attrs f))"
      by (simp add: new_value_def)
    show ?thesis
    proof (cases "case map_of input (fname f) of
               Some v \<Rightarrow> Some v
             | None \<Rightarrow> default_value nv t (attrs f)")
      case None
      with nvf have "new_value nv t input f = None" by simp
      with True rest None show ?thesis by simp
    next
      case (Some v)
      with nvf have "new_value nv t input f = Some (fname f, v)" by simp
      with True Some show ?thesis by simp
    qed
  next
    case False
    with Cons.prems(2) have fx: "f \<in> set xs" by simp
    with Cons.prems(1) have ne: "fname x \<noteq> fname f" by auto
    from Cons.prems(1) have "distinct (map fname xs)" by simp
    note IH = Cons.IH [OF this fx Cons.prems(3)]
    show ?thesis
    proof (cases "new_value nv t input x")
      case None
      with IH show ?thesis by simp
    next
      case (Some p)
      obtain k v where p: "p = (k, v)" by (cases p)
      with Some new_value_name have "k = fname x" by blast
      with Some p IH ne show ?thesis by simp
    qed
  qed
qed

lemma book_fields_distinct: "distinct (map fname (mfields Book))"
  by code_simp

lemma new_book_row:
  assumes "map_of input ''id'' = None" and "map_of input ''isAvailable'' = None"
    and "map_of input ''borrowedCount'' = None" and "map_of input ''createdAt'' = None"
  shows "map_of (new_row Book nv t input) ''id'' = Some (VInt nv)"
    and "map_of (new_row Book nv t input) ''isAvailable'' = Some (VBool True)"
    and "map_of (new_row Book nv t input) ''borrowedCount'' = Some (VInt 0)"
    and "map_of (new_row Book nv t input) ''createdAt'' = Some (VTime t)"
proof -
  note L = new_row_lookup [OF book_fields_distinct, where nv = nv and t = t and input = input]
  have "Field ''isAvailable'' TBoolean Required [AtDefault (DBool True)] \<in> set (mfields Book)"
    by (simp add: Book_def)
  from L [OF this] assms(2) show "map_of (new_row Book nv t input) ''isAvailable'' = Some (VBool True)"
    by (simp add: new_row_def)
  have "Field ''borrowedCount'' TInt Required [AtDefault (DInt 0)] \<in> set (mfields Book)"
    by (simp add: Book_def)
  from L [OF this] assms(3) show "map_of (new_row Book nv t input) ''borrowedCount'' = Some (VInt 0)"
    by (simp add: new_row_def)
  have "Field ''createdAt'' TDateTime Required [AtDefault now] \<in> set (mfields Book)"
    by (simp add: Book_def)
  from L [OF this] assms(4) show "map_of (new_row Book nv t input) ''createdAt'' = Some (VTime t)"
    by (simp add: new_row_def)
  from L [OF book_id_field] assms(1) show "map_of (new_row Book nv t input) ''id'' = Some (VInt nv)"
    by (simp add: new_row_def)
qed

lemma create_success:
  assumes "create S d m t input = Inr (r, d')"
  shows "r = new_row m (seqs d (mname m) + 1) t input"
    and "tables d' = (tables d)(mname m := tables d (mname m) @ [r])"
    and "list_all (\<lambda>f. unique_ok f (tables d (mname m) @ [r])) (mfields m)"
  using assms unfolding create_def Let_def
  by (auto split: if_splits)

lemma no_transaction_of_unknown_book:
  assumes ok: "db_ok prisma_schema tbl"
    and fresh: "bid \<notin> set (List.map_filter (\<lambda>r. map_of r ''id'') (tbl ''Book''))"
    and tx: "tx \<in> set (tbl ''Transactions'')"
  shows "map_of tx ''bookId'' \<noteq> Some bid"
proof
  assume b: "map_of tx ''bookId'' = Some bid"
  from ok have "model_ok prisma_schema tbl Transactions"
    by (rule db_ok_model) (rule models_prisma_schema)
  from model_ok_field(3) [OF this transactions_book_field] tx
  have "relation_ok tbl (Field ''Book'' (TModel ''Book'') Required [AtRelation [''bookId''] [''id'']]) tx"
    by simp
  with b obtain r' where r': "r' \<in> set (tbl ''Book'')" and id: "map_of r' ''id'' = Some bid"
    by (auto simp: relation_ok_def list_ex_iff)
  from map_filter_mem_set [where g = "\<lambda>r. map_of r ''id''", OF r' id] fresh
  show False by simp
qed

text \<open>
  C10. A Book row created without values for id, isAvailable, borrowedCount and
  createdAt gets the next value of the sequence as id, isAvailable = true,
  borrowedCount = 0 and the creation time as createdAt. When the state before the
  insertion meets the schema's constraints, no transaction names the new book, so the
  new row satisfies the availability invariant (available exactly when it has no open
  transaction) from the moment it is inserted.
\<close>

theorem new_book_defaults:
  assumes "db_ok prisma_schema (tables d)"
    and "create prisma_schema d Book t input = Inr (r, d')"
    and "map_of input ''id'' = None" and "map_of input ''isAvailable'' = None"
    and "map_of input ''borrowedCount'' = None" and "map_of input ''createdAt'' = None"
  shows "map_of r ''id'' = Some (VInt (seqs d ''Book'' + 1))
    \<and> map_of r ''isAvailable'' = Some (VBool True)
    \<and> map_of r ''borrowedCount'' = Some (VInt 0)
    \<and> map_of r ''createdAt'' = Some (VTime t)
    \<and> tables d' ''Book'' = tables d ''Book'' @ [r]
    \<and> open_transactions (tables d') (VInt (seqs d ''Book'' + 1)) = []
    \<and> availability_invariant (tables d') r"
proof -
  let ?nv = "seqs d ''Book'' + 1"
  note cs = create_success [OF assms(2), unfolded mname_models]
  note row = new_book_row [OF assms(3-6), of ?nv t, folded cs(1)]
  have books: "tables d' ''Book'' = tables d ''Book'' @ [r]"
    by (simp add: cs(2))
  have txs: "tables d' ''Transactions'' = tables d ''Transactions''"
    by (simp add: cs(2))
  from cs(3) book_id_field
  have "unique_ok (Field ''id'' TInt Required [AtId, AtDefault autoincrement]) (tables d ''Book'' @ [r])"
    by (simp add: list_all_iff)
  then have "distinct (List.map_filter (\<lambda>r. map_of r ''id'') (tables d ''Book'' @ [r]))"
    by (simp add: key_distinct)
  with row(1) have fresh: "VInt ?nv \<notin> set (List.map_filter (\<lambda>r. map_of r ''id'') (tables d ''Book''))"
    by (simp add: map_filter_app)
  have "\<forall>tx \<in> set (tables d ''Transactions''). map_of tx ''bookId'' \<noteq> Some (VInt ?nv)"
    using no_transaction_of_unknown_book [OF assms(1) fresh] by blast
  then have opn: "open_transactions (tables d') (VInt ?nv) = []"
    by (simp add: open_transactions_def txs filter_empty_conv)
  from row(1,2) opn have inv: "availability_invariant (tables d') r"
    by (simp add: availability_invariant_def)
  from row books opn inv show ?thesis by simp
qed

theorem new_book_defaults_witness:
  "db_ok prisma_schema library_state
   \<and> (\<exists>r d'. create prisma_schema \<lparr>tables = library_state, seqs = (\<lambda>m. 4)\<rparr> Book 9
                [(''title'', VStr ''Ulysses''), (''author'', VStr ''James Joyce''),
                 (''genre'', VStr ''Novel''), (''publishedYear'', VInt 1922)] = Inr (r, d')
        \<and> map_of r ''id'' = Some (VInt 5)
        \<and> map_of r ''isAvailable'' = Some (VBool True)
        \<and> map_of r ''borrowedCount'' = Some (VInt 0)
        \<and> map_of r ''createdAt'' = Some (VTime 9)
        \<and> open_transactions (tables d') (VInt 5) = []
        \<and> availability_invariant (tables d') r)"
proof -
  let ?d = "\<lparr>tables = library_state, seqs = (\<lambda>m. 4)\<rparr>"
  let ?input = "[(''title'', VStr ''Ulysses''), (''author'', VStr ''James Joyce''),
                 (''genre'', VStr ''Novel''), (''publishedYear'', VInt 1922)]"
  have "case create prisma_schema ?d Book 9 ?input of Inl e \<Rightarrow> False | Inr x \<Rightarrow> True"
    by code_simp
  then obtain r d' where c: "create prisma_schema ?d Book 9 ?input = Inr (r, d')"
    by (cases "create prisma_schema ?d Book 9 ?input") auto
  have ok: "db_ok prisma_schema (tables ?d)"
    using library_state_ok by simp
  have i: "map_of ?input ''id'' = None" "map_of ?input ''isAvailable'' = None"
    "map_of ?input ''borrowedCount'' = None" "map_of ?input ''createdAt'' = None"
    by simp_all
  from new_book_defaults [OF ok c i] c library_state_ok show ?thesis
    by auto
qed

end
